theory Spec2Isabelle
  imports Complex_Main "HOL-Library.Sublist"
begin

section \<open>Python strings\<close>

text \<open>
  A Python \<open>str\<close> is a sequence of Unicode code points, so a character is a natural
  number and \<open>len\<close> is \<open>length\<close>. The classes \<open>\s\<close> and \<open>\w\<close> of the \<open>re\<close>
  module, \<open>str.strip\<close> and \<open>str.lower\<close> are fixed on ASCII; beyond ASCII they read the
  Unicode character database of the interpreter, which is a parameter \<open>db\<close> of every
  function that depends on it.
\<close>

type_synonym pystr = "nat list"

definition py :: "string \<Rightarrow> pystr" where
  \<comment> \<open>the Python string written as an ASCII literal\<close>
  "py s = map of_char s"

record unicode_db =
  uni_space :: "nat \<Rightarrow> bool"
  uni_alnum :: "nat \<Rightarrow> bool"
  uni_lower :: "pystr \<Rightarrow> nat \<Rightarrow> pystr"

definition ascii_db :: unicode_db where
  \<comment> \<open>a database that classifies nothing beyond ASCII; on ASCII text it is never read\<close>
  "ascii_db = \<lparr>uni_space = (\<lambda>c. False), uni_alnum = (\<lambda>c. False),
                uni_lower = (\<lambda>s i. [s ! i])\<rparr>"

definition is_space :: "unicode_db \<Rightarrow> nat \<Rightarrow> bool" where
  \<comment> \<open>\<open>\s\<close> and \<open>str.isspace\<close>: tab to carriage return, the separators 0x1C to 0x1F, space\<close>
  "is_space db c =
     (if c < 128 then (9 \<le> c \<and> c \<le> 13) \<or> (28 \<le> c \<and> c \<le> 32) else uni_space db c)"

definition ascii_letter :: "nat \<Rightarrow> bool" where
  \<comment> \<open>the class \<open>[a-zA-Z]\<close>\<close>
  "ascii_letter c = ((65 \<le> c \<and> c \<le> 90) \<or> (97 \<le> c \<and> c \<le> 122))"

definition ascii_digit :: "nat \<Rightarrow> bool" where
  "ascii_digit c = (48 \<le> c \<and> c \<le> 57)"

definition is_word :: "unicode_db \<Rightarrow> nat \<Rightarrow> bool" where
  \<comment> \<open>\<open>\w\<close>: alphanumeric or underscore\<close>
  "is_word db c =
     (if c < 128 then ascii_letter c \<or> ascii_digit c \<or> c = 95 else uni_alnum db c)"

definition punctuation :: "nat list" where
  \<comment> \<open>the characters \<open>. , ! ? ; : - ( ) [ ] { } " '\<close> of the last pattern of \<open>clean_text\<close>\<close>
  "punctuation = [46, 44, 33, 63, 59, 58, 45, 40, 41, 91, 93, 123, 125, 34, 39]"

definition allowed :: "unicode_db \<Rightarrow> nat \<Rightarrow> bool" where
  \<comment> \<open>the complement of the negated class \<open>[^\w\s\.\,\!\?\;\:\-\(\)\[\]\{\}\"\']\<close>\<close>
  "allowed db c = (is_word db c \<or> is_space db c \<or> c \<in> set punctuation)"

function re_sub_plus :: "(nat \<Rightarrow> bool) \<Rightarrow> pystr \<Rightarrow> pystr \<Rightarrow> pystr" where
  \<comment> \<open>\<open>re.sub(r'C+', repl, text)\<close> for a character class \<open>C\<close>: scanning from the left,
      every maximal run of characters of the class is replaced by \<open>repl\<close>\<close>
  "re_sub_plus P repl [] = []"
| "re_sub_plus P repl (c # cs) =
     (if P c then repl @ re_sub_plus P repl (dropWhile P cs)
      else c # re_sub_plus P repl cs)"
  by pat_completeness auto
termination
  by (relation "measure (\<lambda>(P, repl, s). length s)")
     (auto simp: less_Suc_eq_le length_dropWhile_le)

definition py_strip :: "unicode_db \<Rightarrow> pystr \<Rightarrow> pystr" where
  \<comment> \<open>\<open>str.strip()\<close>: leading and trailing whitespace removed\<close>
  "py_strip db s = rev (dropWhile (is_space db) (rev (dropWhile (is_space db) s)))"

section \<open>\<open>TextProcessor\<close> (src/utils/text_processing.py)\<close>

definition clean_text :: "unicode_db \<Rightarrow> pystr \<Rightarrow> pystr" where
  "clean_text db text =
     (let t1 = re_sub_plus (is_space db) [32] text;
          t2 = re_sub_plus (\<lambda>c. c = 10) [10] t1;
          t3 = py_strip db t2;
          t4 = re_sub_plus (\<lambda>c. \<not> allowed db c) [] t3
      in t4)"

definition normal_ws :: "unicode_db \<Rightarrow> pystr \<Rightarrow> bool" where
  \<comment> \<open>the only whitespace is the space character, and never two in a row\<close>
  "normal_ws db s \<longleftrightarrow> (\<forall>c\<in>set s. is_space db c \<longrightarrow> c = 32) \<and>
     successively (\<lambda>a b. is_space db a \<longrightarrow> \<not> is_space db b) s"

datatype error =
    External pystr
  | IndexError
  | FailedToGenerateEmbeddings error
  | FailedToAddDocuments error
  | FailedToRetrieveDocuments error

text \<open>
  \<open>chunk_text\<close> hands the text to \<open>RecursiveCharacterTextSplitter.split_text\<close> of the
  third-party package \<open>langchain_text_splitters\<close>, configured with the chunk size, the
  overlap, \<open>len\<close> and the separators. The splitter is a parameter \<open>split_text\<close>: it gets
  the chunk size, the overlap and the text, and returns the pieces or raises.
\<close>

definition chunk_text ::
  "unicode_db \<Rightarrow> (int \<Rightarrow> int \<Rightarrow> pystr \<Rightarrow> error + pystr list) \<Rightarrow> pystr \<Rightarrow> int \<Rightarrow> int
     \<Rightarrow> error + pystr list" where
  "chunk_text db split_text text chunk_size chunk_overlap =
     (case split_text chunk_size chunk_overlap text of
        Inl e \<Rightarrow> Inl e
      | Inr chunks \<Rightarrow> Inr [clean_text db chunk. chunk \<leftarrow> chunks, py_strip db chunk \<noteq> []])"

definition py_lower :: "unicode_db \<Rightarrow> pystr \<Rightarrow> pystr" where
  \<comment> \<open>\<open>str.lower()\<close>: \<open>A\<close> to \<open>Z\<close> move to \<open>a\<close> to \<open>z\<close>, the rest of ASCII stays; a character
      beyond ASCII becomes what the database gives for it at its place in the string\<close>
  "py_lower db s =
     concat (map (\<lambda>i. let c = s ! i in
                        if c < 128 then [if 65 \<le> c \<and> c \<le> 90 then c + 32 else c]
                        else uni_lower db s i)
                 [0..<length s])"

function findall_words :: "unicode_db \<Rightarrow> bool \<Rightarrow> pystr \<Rightarrow> pystr list" where
  \<comment> \<open>\<open>re.findall(r'\b[a-zA-Z]{3,}\b', s)\<close>, scanning from the left; \<open>prev\<close> tells whether
      the character before the current position is a word character. A match starts at a
      letter after a non-word character (or at the start), takes the whole run of letters,
      needs three of them and a non-word character (or the end) after the run; backtracking
      into the run never yields a boundary, since both neighbours are letters then.\<close>
  "findall_words db prev [] = []"
| "findall_words db prev (c # cs) =
     (if \<not> prev \<and> ascii_letter c \<and> 3 \<le> length (takeWhile ascii_letter (c # cs)) \<and>
         (dropWhile ascii_letter cs = [] \<or> \<not> is_word db (hd (dropWhile ascii_letter cs)))
      then takeWhile ascii_letter (c # cs) # findall_words db True (dropWhile ascii_letter cs)
      else findall_words db (is_word db c) cs)"
  by pat_completeness auto
termination
  by (relation "measure (\<lambda>(db, prev, s). length s)")
     (auto simp: less_Suc_eq_le length_dropWhile_le)

definition stop_words :: "pystr list" where
  "stop_words = map py
     [''the'', ''and'', ''or'', ''but'', ''in'', ''on'', ''at'', ''to'', ''for'', ''of'', ''with'',
      ''by'', ''is'', ''are'', ''was'', ''were'', ''be'', ''been'', ''have'', ''has'', ''had'',
      ''do'', ''does'', ''did'', ''will'', ''would'', ''could'', ''should'', ''may'', ''might'',
      ''can'', ''this'', ''that'', ''these'', ''those'', ''a'', ''an'', ''as'']"

fun bump :: "pystr \<Rightarrow> (pystr \<times> int) list \<Rightarrow> (pystr \<times> int) list" where
  \<comment> \<open>\<open>word_freq[word] = word_freq.get(word, 0) + 1\<close> on a dict, which keeps its keys in
      the order of their first insertion\<close>
  "bump word [] = [(word, 0 + 1)]"
| "bump word ((k, v) # rest) =
     (if k = word then (k, v + 1) # rest else (k, v) # bump word rest)"

definition sorted_reverse :: "('a \<Rightarrow> 'k::linorder) \<Rightarrow> 'a list \<Rightarrow> 'a list" where
  \<comment> \<open>\<open>sorted(xs, key=key, reverse=True)\<close>: the list is reversed, sorted by a stable sort
      and reversed again\<close>
  "sorted_reverse key xs = rev (sort_key key (rev xs))"

definition slice_to :: "int \<Rightarrow> 'a list \<Rightarrow> 'a list" where
  \<comment> \<open>\<open>xs[:n]\<close>: a negative \<open>n\<close> counts from the end\<close>
  "slice_to n xs = (if 0 \<le> n then take (nat n) xs else take (length xs - nat (- n)) xs)"

definition keywords_of :: "unicode_db \<Rightarrow> pystr \<Rightarrow> pystr list" where
  \<comment> \<open>the list \<open>keywords\<close> of \<open>extract_keywords\<close>: the tokens of the lowered text that are
      no stop words, in text order\<close>
  "keywords_of db text =
     (let words = findall_words db False (py_lower db text)
      in [word. word \<leftarrow> words, word \<notin> set stop_words])"

definition extract_keywords :: "unicode_db \<Rightarrow> pystr \<Rightarrow> int \<Rightarrow> pystr list" where
  "extract_keywords db text max_keywords =
     (let keywords = keywords_of db text;
          word_freq = fold bump keywords [];
          sorted_words = sorted_reverse snd word_freq
      in map fst (slice_to max_keywords sorted_words))"



section \<open>\<open>EmbeddingService\<close> (src/services/embedding_service.py)\<close>

type_synonym embedding = "real list"

definition generate_embeddings ::
  "(pystr list \<Rightarrow> error + embedding list) \<Rightarrow> pystr list \<Rightarrow> error + embedding list" where
  \<comment> \<open>\<open>create\<close> is the call to the embedding provider, giving the vectors of the response\<close>
  "generate_embeddings create texts =
     (case create texts of
        Inl e \<Rightarrow> Inl (FailedToGenerateEmbeddings e)
      | Inr embeddings \<Rightarrow> Inr embeddings)"

definition generate_embedding ::
  "(pystr list \<Rightarrow> error + embedding list) \<Rightarrow> pystr \<Rightarrow> error + embedding" where
  "generate_embedding create text =
     (case generate_embeddings create [text] of
        Inl e \<Rightarrow> Inl e
      | Inr embeddings \<Rightarrow> (case embeddings of [] \<Rightarrow> Inl IndexError | v # _ \<Rightarrow> Inr v))"

section \<open>\<open>RetrievalService\<close> (src/services/retrieval_service.py)\<close>

datatype meta_value = MStr pystr | MInt int | MList "meta_value list"

type_synonym metadata = "(pystr \<times> meta_value) list"

record retrieved_document =
  content :: pystr
  metadata :: metadata
  similarity_score :: real

record query_result =
  documents :: "pystr list list"
  metadatas :: "metadata list list"
  distances :: "real list list"

text \<open>
  The service works on collaborators it does not define: the embedding provider, the
  collection of the vector database (state \<open>'s\<close>; \<open>add\<close> gives the new state and may
  raise, \<open>query\<close> reads the state), the generator of identifiers, and \<open>str\<close> on metadata
  values. Distances and scores are real numbers here.
\<close>

record 's collaborators =
  embeddings_create :: "pystr list \<Rightarrow> error + embedding list"
  collection_add ::
    "'s \<Rightarrow> pystr list \<Rightarrow> embedding list \<Rightarrow> metadata list \<Rightarrow> pystr list \<Rightarrow> (error + unit) \<times> 's"
  collection_query :: "'s \<Rightarrow> embedding list \<Rightarrow> int \<Rightarrow> error + query_result"
  uuid4 :: "nat \<Rightarrow> pystr"
  py_str :: "meta_value \<Rightarrow> pystr"

record settings =
  retrieval_k :: int
  similarity_threshold :: real

fun py_join :: "pystr \<Rightarrow> pystr list \<Rightarrow> pystr" where
  "py_join sep [] = []"
| "py_join sep [x] = x"
| "py_join sep (x # y # rest) = x @ sep @ py_join sep (y # rest)"

definition sanitize :: "(meta_value \<Rightarrow> pystr) \<Rightarrow> metadata \<Rightarrow> metadata" where
  "sanitize str_of md =
     map (\<lambda>(key, value).
            (case value of
               MList vs \<Rightarrow> (key, MStr (py_join (py '', '') (map str_of vs)))
             | _ \<Rightarrow> (key, value))) md"

definition add_documents ::
  "'s collaborators \<Rightarrow> 's \<Rightarrow> pystr list \<Rightarrow> metadata list \<Rightarrow> (error + pystr list) \<times> 's" where
  "add_documents env st chunks metadata_list =
     (case generate_embeddings (embeddings_create env) chunks of
        Inl e \<Rightarrow> (Inl (FailedToAddDocuments e), st)
      | Inr embeddings \<Rightarrow>
          (let ids = map (uuid4 env) [0..<length chunks];
               sanitized_metadata_list = map (sanitize (py_str env)) metadata_list
           in case collection_add env st chunks embeddings sanitized_metadata_list ids of
                (Inl e, st') \<Rightarrow> (Inl (FailedToAddDocuments e), st')
              | (Inr u, st') \<Rightarrow> (Inr ids, st')))"

definition to_match :: "pystr \<times> metadata \<times> real \<Rightarrow> retrieved_document" where
  "to_match = (\<lambda>(doc, md, distance).
      \<lparr>content = doc, metadata = md, similarity_score = 1 - distance\<rparr>)"

definition collect_matches :: "real \<Rightarrow> (pystr \<times> metadata \<times> real) list \<Rightarrow> retrieved_document list" where
  \<comment> \<open>the loop over the zipped rows, appending to \<open>retrieved_docs\<close>\<close>
  "collect_matches threshold rows =
     fold (\<lambda>(doc, md, distance) retrieved_docs.
             (let similarity_score = 1 - distance
              in if similarity_score \<ge> threshold
                 then retrieved_docs @
                        [\<lparr>content = doc, metadata = md, similarity_score = similarity_score\<rparr>]
                 else retrieved_docs))
          rows []"

definition first_rows :: "query_result \<Rightarrow> error + (pystr \<times> metadata \<times> real) list" where
  \<comment> \<open>\<open>zip(results["documents"][0], results["metadatas"][0], results["distances"][0])\<close>
      behind the test \<open>results["documents"] and results["documents"][0]\<close>; no rows when
      the test fails\<close>
  "first_rows results =
     (case documents results of
        [] \<Rightarrow> Inr []
      | docs # _ \<Rightarrow>
          if docs = [] then Inr []
          else (case metadatas results of
                  [] \<Rightarrow> Inl IndexError
                | mds # _ \<Rightarrow>
                    (case distances results of
                       [] \<Rightarrow> Inl IndexError
                     | dists # _ \<Rightarrow> Inr (zip docs (zip mds dists)))))"

definition retrieve_documents ::
  "'s collaborators \<Rightarrow> settings \<Rightarrow> 's \<Rightarrow> pystr \<Rightarrow> int option \<Rightarrow> error + retrieved_document list" where
  "retrieve_documents env cfg st query k =
     (let k' = (case k of None \<Rightarrow> retrieval_k cfg | Some n \<Rightarrow> n)
      in case generate_embedding (embeddings_create env) query of
           Inl e \<Rightarrow> Inl (FailedToRetrieveDocuments e)
         | Inr query_embedding \<Rightarrow>
             (case collection_query env st [query_embedding] k' of
                Inl e \<Rightarrow> Inl (FailedToRetrieveDocuments e)
              | Inr results \<Rightarrow>
                  (case first_rows results of
                     Inl e \<Rightarrow> Inl (FailedToRetrieveDocuments e)
                   | Inr rows \<Rightarrow> Inr (collect_matches (similarity_threshold cfg) rows))))"

definition nearest_first :: "'s collaborators \<Rightarrow> 's \<Rightarrow> bool" where
  \<comment> \<open>what the index promises: each list of distances it reports is ascending\<close>
  "nearest_first env st \<longleftrightarrow>
     (\<forall>qs n results. collection_query env st qs n = Inr results \<longrightarrow>
        (\<forall>ds\<in>set (distances results). sorted ds))"

definition firsts :: "'a list \<Rightarrow> 'a list" where
  \<comment> \<open>the elements in the order of their first occurrence\<close>
  "firsts xs = rev (remdups (rev xs))"

section \<open>Example collaborators\<close>

definition example_results :: query_result where
  "example_results =
     \<lparr>documents = [[py ''near'', py ''middle'', py ''far'']],
      metadatas = [[[(py ''chunk_index'', MInt 0)], [(py ''chunk_index'', MInt 1)], []]],
      distances = [[1/10, 1/2, 9/10]]\<rparr>"

definition example_env :: "pystr list collaborators" where
  \<comment> \<open>a collection that is the list of its documents and answers every query with
      \<open>example_results\<close>, and a provider that embeds a text as its length\<close>
  "example_env =
     \<lparr>embeddings_create = (\<lambda>texts. Inr (map (\<lambda>t. [real (length t)]) texts)),
      collection_add = (\<lambda>st docs embs mds ids. (Inr (), st @ docs)),
      collection_query = (\<lambda>st qs n. Inr example_results),
      uuid4 = (\<lambda>i. [48 + i]),
      py_str = (\<lambda>v. case v of MStr s \<Rightarrow> s | _ \<Rightarrow> [])\<rparr>"

definition failing_env :: "pystr list collaborators" where
  \<comment> \<open>the same, with a provider that refuses every call\<close>
  "failing_env =
     example_env\<lparr>embeddings_create := (\<lambda>texts. Inl (External (py ''rate limit'')))\<rparr>"

definition example_cfg :: settings where
  "example_cfg = \<lparr>retrieval_k = 5, similarity_threshold = 1/5\<rparr>"

definition near_match :: retrieved_document where
  "near_match =
     \<lparr>content = py ''near'', metadata = [(py ''chunk_index'', MInt 0)], similarity_score = 9/10\<rparr>"

definition middle_match :: retrieved_document where
  "middle_match =
     \<lparr>content = py ''middle'', metadata = [(py ''chunk_index'', MInt 1)], similarity_score = 1/2\<rparr>"


section \<open>The normalizer\<close>

lemma re_sub_plus_set:
  "set (re_sub_plus P repl s) \<subseteq> set repl \<union> {c \<in> set s. \<not> P c}"
proof (induction P repl s rule: re_sub_plus.induct)
  case (1 P repl)
  show ?case by simp
next
  case (2 P repl c cs)
  show ?case
  proof (cases "P c")
    case True
    have "set (dropWhile P cs) \<subseteq> set cs"
      by (auto dest: set_dropWhileD)
    with 2(1)[OF True] True show ?thesis by auto
  next
    case False
    with 2(2)[OF False] show ?thesis by auto
  qed
qed

lemma filter_dropWhile_not: "filter (\<lambda>c. \<not> P c) (dropWhile P cs) = filter (\<lambda>c. \<not> P c) cs"
  by (induction cs) auto

lemma re_sub_plus_delete: "re_sub_plus P [] s = filter (\<lambda>c. \<not> P c) s"
  by (induction P "[]::nat list" s rule: re_sub_plus.induct) (auto simp: filter_dropWhile_not)

lemma re_sub_plus_no_match: "\<forall>c\<in>set s. \<not> P c \<Longrightarrow> re_sub_plus P repl s = s"
  by (induction s) auto

lemma re_sub_plus_hd:
  "s \<noteq> [] \<Longrightarrow> \<not> P (hd s) \<Longrightarrow> re_sub_plus P repl s \<noteq> [] \<and> hd (re_sub_plus P repl s) = hd s"
  by (cases s) auto

lemma collapse_successively:
  "successively (\<lambda>a b. is_space db a \<longrightarrow> \<not> is_space db b) (re_sub_plus (is_space db) [32] s)"
proof (induction "is_space db" "[32::nat]" s rule: re_sub_plus.induct)
  case 1
  show ?case by simp
next
  case (2 c cs)
  show ?case
  proof (cases "is_space db c")
    case True
    let ?r = "dropWhile (is_space db) cs"
    let ?q = "re_sub_plus (is_space db) [32] ?r"
    have "?q = [] \<or> \<not> is_space db (hd ?q)"
    proof (cases "?r = []")
      case True
      have "?q = []" by (simp only: True re_sub_plus.simps(1))
      then show ?thesis by (rule disjI1)
    next
      case False
      from hd_dropWhile[OF False] re_sub_plus_hd[OF False, of "is_space db" "[32]"]
      show ?thesis by simp
    qed
    with 2(1)[OF True] True show ?thesis
      by (simp add: successively_Cons)
  next
    case False
    with 2(2)[OF False] show ?thesis
      by (auto simp: successively_Cons)
  qed
qed

lemma is_space_32: "is_space db 32" by (simp add: is_space_def)
lemma is_space_10: "is_space db 10" by (simp add: is_space_def)

lemma collapse_normal: "normal_ws db (re_sub_plus (is_space db) [32] s)"
  unfolding normal_ws_def using re_sub_plus_set[of "is_space db" "[32]" s] collapse_successively[of db s]
  by auto

lemma normal_ws_collapse_id: "normal_ws db s \<Longrightarrow> re_sub_plus (is_space db) [32] s = s"
proof (induction s)
  case Nil
  show ?case by simp
next
  case (Cons c cs)
  from Cons.prems have n: "normal_ws db cs"
    by (auto simp: normal_ws_def successively_Cons)
  show ?case
  proof (cases "is_space db c")
    case True
    with Cons.prems have c: "c = 32" and h: "cs = [] \<or> \<not> is_space db (hd cs)"
      by (auto simp: normal_ws_def successively_Cons)
    from h have "dropWhile (is_space db) cs = cs"
      by (simp add: dropWhile_eq_self_iff)
    with True c Cons.IH[OF n] show ?thesis by simp
  next
    case False
    with Cons.IH[OF n] show ?thesis by simp
  qed
qed

lemma normal_ws_dropWhile: "normal_ws db s \<Longrightarrow> normal_ws db (dropWhile P s)"
proof -
  let ?R = "\<lambda>a b. is_space db a \<longrightarrow> \<not> is_space db b"
  assume a: "normal_ws db s"
  then have "successively ?R (takeWhile P s @ dropWhile P s)"
    by (simp add: normal_ws_def)
  then have 1: "successively ?R (dropWhile P s)"
    unfolding successively_append_iff by blast
  have 2: "\<forall>c\<in>set (dropWhile P s). is_space db c \<longrightarrow> c = 32"
    using a by (auto simp: normal_ws_def dest: set_dropWhileD)
  from 1 2 show ?thesis
    unfolding normal_ws_def by blast
qed

lemma normal_ws_rev: "normal_ws db (rev s) = normal_ws db s"
proof -
  have "(\<lambda>x y. is_space db y \<longrightarrow> \<not> is_space db x) = (\<lambda>a b. is_space db a \<longrightarrow> \<not> is_space db b)"
    by (intro ext) auto
  then show ?thesis
    unfolding normal_ws_def successively_rev set_rev by (rule arg_cong)
qed

lemma normal_ws_strip: "normal_ws db s \<Longrightarrow> normal_ws db (py_strip db s)"
  by (simp add: py_strip_def normal_ws_rev normal_ws_dropWhile)

lemma py_strip_idem: "py_strip db (py_strip db s) = py_strip db s"
proof -
  let ?P = "is_space db"
  let ?u = "dropWhile ?P s"
  let ?v = "dropWhile ?P (rev ?u)"
  have "rev ?v = [] \<or> \<not> ?P (hd (rev ?v))"
  proof (cases "?v = []")
    case True
    then show ?thesis by simp
  next
    case False
    have une: "?u \<noteq> []"
    proof
      assume e: "?u = []"
      have "?v = []" by (simp only: e rev.simps dropWhile.simps)
      with False show False by (rule notE)
    qed
    have "rev ?u = takeWhile ?P (rev ?u) @ ?v" by simp
    then have "last (rev ?u) = last (takeWhile ?P (rev ?u) @ ?v)" by simp
    also have "\<dots> = last ?v" using False by (rule last_appendR)
    finally have "last (rev ?u) = last ?v" .
    with une False have "hd (rev ?v) = hd ?u"
      by (simp add: hd_rev last_rev)
    with hd_dropWhile[OF une] show ?thesis by simp
  qed
  then have "dropWhile ?P (rev ?v) = rev ?v"
    by (simp add: dropWhile_eq_self_iff)
  then show ?thesis
    by (simp add: py_strip_def)
qed

lemma py_strip_set: "set (py_strip db s) \<subseteq> set s"
  by (auto simp: py_strip_def dest!: set_dropWhileD)

lemma clean_text_filter:
  "clean_text db t = filter (allowed db) (py_strip db (re_sub_plus (is_space db) [32] t))"
proof -
  let ?t1 = "re_sub_plus (is_space db) [32] t"
  have "\<forall>c\<in>set ?t1. \<not> c = 10"
    using re_sub_plus_set[of "is_space db" "[32]" t] is_space_10[of db] by auto
  then have "re_sub_plus (\<lambda>c. c = 10) [10] ?t1 = ?t1"
    by (rule re_sub_plus_no_match)
  then show ?thesis
    by (simp add: clean_text_def re_sub_plus_delete)
qed

lemma clean_text_allowed_id:
  assumes "\<forall>c\<in>set x. allowed db c"
  shows "clean_text db x = py_strip db (re_sub_plus (is_space db) [32] x)"
proof -
  let ?t1 = "re_sub_plus (is_space db) [32] x"
  have "\<forall>c\<in>set ?t1. allowed db c"
    using re_sub_plus_set[of "is_space db" "[32]" x] assms is_space_32[of db]
    by (auto simp: allowed_def)
  then have "\<forall>c\<in>set (py_strip db ?t1). allowed db c"
    using py_strip_set[of db ?t1] by auto
  then show ?thesis
    by (simp add: clean_text_filter)
qed

lemma clean_text_allowed_idem:
  assumes "\<forall>c\<in>set x. allowed db c"
  shows "clean_text db (clean_text db x) = clean_text db x"
proof -
  let ?y = "py_strip db (re_sub_plus (is_space db) [32] x)"
  have y: "clean_text db x = ?y" using assms by (rule clean_text_allowed_id)
  have "\<forall>c\<in>set (clean_text db x). allowed db c"
    by (simp add: clean_text_filter)
  then have ya: "\<forall>c\<in>set ?y. allowed db c" by (simp add: y)
  have n: "normal_ws db ?y"
    by (simp add: normal_ws_strip collapse_normal)
  have "clean_text db ?y = py_strip db (re_sub_plus (is_space db) [32] ?y)"
    using ya by (rule clean_text_allowed_id)
  also have "\<dots> = py_strip db ?y"
    by (simp add: normal_ws_collapse_id[OF n])
  also have "\<dots> = ?y" by (rule py_strip_idem)
  finally show ?thesis by (simp add: y)
qed

lemma clean_text_set_allowed: "\<forall>c\<in>set (clean_text db t). allowed db c"
  by (simp add: clean_text_filter)

text \<open>
  C7: the output of \<open>clean_text\<close> has no character outside the allow-list (word
  characters, whitespace and the fixed punctuation); the other characters are deleted and
  nothing is put in their place: the output is the collapsed and stripped text without
  its characters outside the list.
\<close>

theorem clean_text_allow_list:
  "(\<forall>c\<in>set (clean_text db t). allowed db c) \<and>
   clean_text db t = filter (allowed db) (py_strip db (re_sub_plus (is_space db) [32] t))"
  using clean_text_set_allowed[of db t] clean_text_filter[of db t] by (rule conjI)

theorem clean_text_allow_list_witness:
  "clean_text ascii_db (py ''a @ b'') = py ''a  b'' \<and>
   list_all (allowed ascii_db) (clean_text ascii_db (py ''a @ b''))"
proof -
  have e: "clean_text ascii_db (py ''a @ b'') = py ''a  b''"
    by code_simp
  from clean_text_allow_list[of ascii_db "py ''a @ b''"]
  have "\<forall>c\<in>set (clean_text ascii_db (py ''a @ b'')). allowed ascii_db c"
    by (rule conjunct1)
  then have "list_all (allowed ascii_db) (clean_text ascii_db (py ''a @ b''))"
    by (simp only: list_all_iff)
  with e show ?thesis by (rule conjI)
qed

text \<open>
  C10: the output of \<open>clean_text\<close> has no newline character. The first substitution
  replaces every run of whitespace, newlines included, by one space, so its result has no
  newline and the second substitution, which collapses runs of newlines, changes nothing.
\<close>

theorem clean_text_no_newline:
  "10 \<notin> set (clean_text db t) \<and>
   10 \<notin> set (re_sub_plus (is_space db) [32] t) \<and>
   re_sub_plus (\<lambda>c. c = 10) [10] (re_sub_plus (is_space db) [32] t)
     = re_sub_plus (is_space db) [32] t"
proof -
  let ?t1 = "re_sub_plus (is_space db) [32] t"
  have 1: "10 \<notin> set ?t1"
    using re_sub_plus_set[of "is_space db" "[32]" t] is_space_10[of db] by auto
  then have "\<forall>c\<in>set ?t1. \<not> c = 10" by auto
  then have 2: "re_sub_plus (\<lambda>c. c = 10) [10] ?t1 = ?t1"
    by (rule re_sub_plus_no_match)
  have "set (clean_text db t) \<subseteq> set ?t1"
    using py_strip_set[of db ?t1] by (auto simp: clean_text_filter)
  with 1 have "10 \<notin> set (clean_text db t)" by auto
  with 1 2 show ?thesis by simp
qed

theorem clean_text_no_newline_witness:
  "clean_text ascii_db [97, 10, 10, 98, 10] = py ''a b'' \<and>
   10 \<notin> set (clean_text ascii_db [97, 10, 10, 98, 10])"
proof -
  have "clean_text ascii_db [97, 10, 10, 98, 10] = py ''a b''"
    by code_simp
  with clean_text_no_newline[of ascii_db "[97, 10, 10, 98, 10]"] show ?thesis
    by simp
qed

lemmas char_class_defs =
  is_space_def is_word_def ascii_letter_def ascii_digit_def allowed_def punctuation_def

lemma clean_text_at_sign_any_db:
  "clean_text db (py ''a @ b'') = py ''a  b'' \<and> clean_text db (py ''a  b'') = py ''a b''"
  by (simp add: py_def clean_text_def py_strip_def Let_def char_class_defs)

text \<open>
  C6, as stated: \<open>clean_text\<close> is idempotent. It is not: the characters outside the
  allow-list are deleted after the whitespace has been collapsed and stripped, so spaces
  on both sides of a deleted character stay. \<open>a @ b\<close> becomes \<open>a\<close>, two spaces, \<open>b\<close>, and
  a second pass makes that \<open>a b\<close>, whatever the character database
  (\<open>clean_text_at_sign_any_db\<close>).
\<close>

theorem clean_text_idempotent_counterexample:
  "clean_text ascii_db (py ''a @ b'') = py ''a  b'' \<and>
   clean_text ascii_db (clean_text ascii_db (py ''a @ b'')) = py ''a b'' \<and>
   clean_text ascii_db (clean_text ascii_db (py ''a @ b'')) \<noteq> clean_text ascii_db (py ''a @ b'')"
  by code_simp

text \<open>
  C6, amended: \<open>clean_text\<close> is idempotent on every string made of allow-list characters
  only, and for every string the result of two passes is a fixed point.
\<close>

theorem clean_text_idempotent_on_allowed:
  "((\<forall>c\<in>set x. allowed db c) \<longrightarrow> clean_text db (clean_text db x) = clean_text db x) \<and>
   clean_text db (clean_text db (clean_text db x)) = clean_text db (clean_text db x)"
  using clean_text_allowed_idem[of x db]
    clean_text_allowed_idem[OF clean_text_set_allowed, of db x]
  by blast

theorem clean_text_idempotent_on_allowed_witness:
  "list_all (allowed ascii_db) (py ''  a, (b)   c '') \<and>
   clean_text ascii_db (py ''  a, (b)   c '') = py ''a, (b) c'' \<and>
   clean_text ascii_db (clean_text ascii_db (py ''  a, (b)   c ''))
     = clean_text ascii_db (py ''  a, (b)   c '')"
proof -
  have a: "list_all (allowed ascii_db) (py ''  a, (b)   c '')"
    by code_simp
  have e: "clean_text ascii_db (py ''  a, (b)   c '') = py ''a, (b) c''"
    by code_simp
  from a have "\<forall>c\<in>set (py ''  a, (b)   c ''). allowed ascii_db c"
    by (simp only: list_all_iff)
  with clean_text_idempotent_on_allowed[of "py ''  a, (b)   c ''" ascii_db]
  have "clean_text ascii_db (clean_text ascii_db (py ''  a, (b)   c ''))
     = clean_text ascii_db (py ''  a, (b)   c '')"
    by blast
  with a e show ?thesis by blast
qed

section \<open>The chunker\<close>

lemma re_sub_plus_length: "length repl \<le> 1 \<Longrightarrow> length (re_sub_plus P repl s) \<le> length s"
proof (induction P repl s rule: re_sub_plus.induct)
  case (1 P repl)
  show ?case by simp
next
  case (2 P repl c cs)
  show ?case
  proof (cases "P c")
    case True
    from 2(1)[OF True 2(3)] length_dropWhile_le[of P cs]
    have "length (re_sub_plus P repl (dropWhile P cs)) \<le> length cs" by simp
    with True 2(3) show ?thesis by simp
  next
    case False
    with 2(2)[OF False 2(3)] show ?thesis by simp
  qed
qed

lemma py_strip_length: "length (py_strip db s) \<le> length s"
proof -
  have "length (dropWhile (is_space db) (rev (dropWhile (is_space db) s)))
          \<le> length (rev (dropWhile (is_space db) s))"
    by (rule length_dropWhile_le)
  also have "\<dots> \<le> length s"
    by (simp add: length_dropWhile_le)
  finally show ?thesis by (simp add: py_strip_def)
qed

lemma clean_text_length: "length (clean_text db t) \<le> length t"
proof -
  have "length (clean_text db t) \<le> length (py_strip db (re_sub_plus (is_space db) [32] t))"
    by (simp add: clean_text_filter)
  also have "\<dots> \<le> length (re_sub_plus (is_space db) [32] t)"
    by (rule py_strip_length)
  also have "\<dots> \<le> length t"
    by (rule re_sub_plus_length) simp
  finally show ?thesis .
qed








text \<open>
  The filter of \<open>chunk_text\<close> tests the piece as the splitter returned it and the piece
  is normalized afterwards. On a piece with characters outside the allow-list the two do
  not commute: a direct call on the text \<open>@@@\<close>, returned by the splitter as its only
  piece, yields one empty chunk. The program never makes such a call: its only call of
  \<open>chunk_text\<close> (in \<open>_process_document\<close>) passes the output of \<open>clean_text\<close>.
\<close>

lemma chunk_text_raw_piece:
  "chunk_text db (\<lambda>chunk_size chunk_overlap text. Inr [text]) (py ''@@@'') 1000 200
     = Inr [[]]"
  by (simp add: chunk_text_def py_def clean_text_def py_strip_def Let_def char_class_defs)



section \<open>The keyword extractor\<close>

lemma firsts_snoc: "firsts (xs @ [x]) = (if x \<in> set xs then firsts xs else firsts xs @ [x])"
  by (simp add: firsts_def)

lemma set_firsts: "set (firsts xs) = set xs"
  by (simp add: firsts_def)

lemma distinct_firsts: "distinct (firsts xs)"
  by (simp add: firsts_def)

lemma bump_fresh: "x \<notin> set ks \<Longrightarrow> bump x (map (\<lambda>w. (w, f w)) ks) = map (\<lambda>w. (w, f w)) ks @ [(x, 1)]"
  by (induction ks) auto

lemma bump_present:
  "distinct ks \<Longrightarrow> x \<in> set ks \<Longrightarrow>
   bump x (map (\<lambda>w. (w, f w)) ks) = map (\<lambda>w. (w, if w = x then f w + 1 else f w)) ks"
  by (induction ks) auto

lemma word_freq_closed:
  "fold bump kws [] = map (\<lambda>w. (w, int (count_list kws w))) (firsts kws)"
proof (induction kws rule: rev_induct)
  case Nil
  show ?case by (simp add: firsts_def)
next
  case (snoc x xs)
  show ?case
  proof (cases "x \<in> set xs")
    case True
    then have "x \<in> set (firsts xs)" by (simp add: set_firsts)
    from bump_present[OF distinct_firsts this, of "\<lambda>w. int (count_list xs w)"] snoc True
    show ?thesis by (simp add: firsts_snoc)
  next
    case False
    then have "x \<notin> set (firsts xs)" by (simp add: set_firsts)
    from bump_fresh[OF this, of "\<lambda>w. int (count_list xs w)"] snoc False
    show ?thesis by (auto simp: firsts_snoc set_firsts)
  qed
qed






lemma sorted_reverse_set: "set (sorted_reverse key xs) = set xs"
  by (simp add: sorted_reverse_def)

lemma sorted_reverse_length: "length (sorted_reverse key xs) = length xs"
  by (simp add: sorted_reverse_def)

lemma sorted_reverse_distinct_map:
  "distinct (map g (sorted_reverse key xs)) = distinct (map g xs)"
  by (simp add: sorted_reverse_def distinct_map rev_map[symmetric])



lemma slice_to_take: "\<exists>n. slice_to m xs = take n xs"
  by (auto simp: slice_to_def)


lemma extract_keywords_take:
  "\<exists>n. extract_keywords db text m = take n (map fst (sorted_reverse snd (fold bump (keywords_of db text) [])))"
  using slice_to_take[of m "sorted_reverse snd (fold bump (keywords_of db text) [])"]
  by (auto simp: extract_keywords_def Let_def take_map)


lemma ranking_distinct: "distinct (map fst (sorted_reverse snd (fold bump kws [])))"
  by (simp add: sorted_reverse_distinct_map word_freq_closed comp_def distinct_firsts)

lemma ranking_set: "set (map fst (sorted_reverse snd (fold bump kws []))) = set kws"
  by (simp add: sorted_reverse_set word_freq_closed set_firsts image_image)

lemma extract_keywords_distinct: "distinct (extract_keywords db text m)"
  using extract_keywords_take[of db "text" m] ranking_distinct[of "keywords_of db text"]
  by auto

lemma extract_keywords_subset: "set (extract_keywords db text m) \<subseteq> set (keywords_of db text)"
proof -
  let ?r = "map fst (sorted_reverse snd (fold bump (keywords_of db text) []))"
  from extract_keywords_take[of db "text" m]
  obtain n where "extract_keywords db text m = take n ?r" by blast
  then have "set (extract_keywords db text m) \<subseteq> set ?r"
    by (simp only: set_take_subset)
  then show ?thesis
    by (simp only: ranking_set)
qed

lemma keywords_of_no_stop: "w \<in> set (keywords_of db text) \<Longrightarrow> w \<notin> set stop_words"
  by (simp add: keywords_of_def Let_def)

lemma extract_keywords_length: "0 \<le> m \<Longrightarrow> int (length (extract_keywords db text m)) \<le> m"
  by (simp add: extract_keywords_def Let_def slice_to_def)

text \<open>
  C8: for every text and every \<open>max_keywords\<close>, a count and so not negative, the result
  of \<open>extract_keywords\<close> has at most \<open>max_keywords\<close> entries, no duplicates and no word of
  the stop-word set. The last two hold whatever the sign of \<open>max_keywords\<close>.
\<close>

theorem extract_keywords_bounds:
  "(0 \<le> max_keywords \<longrightarrow>
      int (length (extract_keywords db text max_keywords)) \<le> max_keywords) \<and>
   distinct (extract_keywords db text max_keywords) \<and>
   (\<forall>w\<in>set (extract_keywords db text max_keywords). w \<notin> set stop_words)"
  using extract_keywords_length[of max_keywords db "text"]
    extract_keywords_distinct[of db "text" max_keywords]
    extract_keywords_subset[of db "text" max_keywords]
    keywords_of_no_stop[of _ db "text"]
  by blast

theorem extract_keywords_bounds_witness:
  "(0::int) \<le> 2 \<and>
   extract_keywords ascii_db (py ''The cat and the dog; the Dog barks'') 2
     = [py ''dog'', py ''cat''] \<and>
   int (length (extract_keywords ascii_db (py ''The cat and the dog; the Dog barks'') 2)) \<le> 2 \<and>
   distinct (extract_keywords ascii_db (py ''The cat and the dog; the Dog barks'') 2) \<and>
   list_all (\<lambda>w. w \<notin> set stop_words)
     (extract_keywords ascii_db (py ''The cat and the dog; the Dog barks'') 2)"
proof -
  have e: "extract_keywords ascii_db (py ''The cat and the dog; the Dog barks'') 2
     = [py ''dog'', py ''cat'']"
    by code_simp
  from extract_keywords_bounds[of 2 ascii_db "py ''The cat and the dog; the Dog barks''"]
  have "int (length (extract_keywords ascii_db (py ''The cat and the dog; the Dog barks'') 2)) \<le> 2"
    and "distinct (extract_keywords ascii_db (py ''The cat and the dog; the Dog barks'') 2)"
    and "list_all (\<lambda>w. w \<notin> set stop_words)
     (extract_keywords ascii_db (py ''The cat and the dog; the Dog barks'') 2)"
    by (simp_all only: list_all_iff) simp_all
  with e show ?thesis by simp
qed



section \<open>Retrieval\<close>

lemma collect_matches_acc:
  "fold (\<lambda>(doc, md, distance) retrieved_docs.
             (let similarity_score = 1 - distance
              in if similarity_score \<ge> threshold
                 then retrieved_docs @
                        [\<lparr>content = doc, metadata = md, similarity_score = similarity_score\<rparr>]
                 else retrieved_docs))
          rows acc
   = acc @ filter (\<lambda>d. threshold \<le> similarity_score d) (map to_match rows)"
  by (induction rows arbitrary: acc) (auto simp: to_match_def Let_def)

lemma collect_matches_filter:
  "collect_matches threshold rows = filter (\<lambda>d. threshold \<le> similarity_score d) (map to_match rows)"
  unfolding collect_matches_def by (simp add: collect_matches_acc)

lemma similarity_of_row: "map similarity_score (map to_match rows) = map (\<lambda>(doc, md, distance). 1 - distance) rows"
  by (induction rows) (auto simp: to_match_def)

lemma map_snd_zip_prefix: "\<exists>n. map snd (zip xs ys) = take n ys"
  using map_snd_zip_take[of xs ys] by blast

lemma first_rows_sorted:
  assumes "first_rows results = Inr rows" and "\<forall>ds\<in>set (distances results). sorted ds"
  shows "sorted (map (\<lambda>(doc, md, distance). distance) rows)"
proof (cases "rows = []")
  case True
  then show ?thesis by simp
next
  case False
  with assms(1) obtain docs dr mds mr dists sr where
     r: "rows = zip docs (zip mds dists)" and d: "distances results = dists # sr"
    by (auto simp: first_rows_def split: list.splits if_splits)
  from d assms(2) have s: "sorted dists" by simp
  from map_snd_zip_prefix[of docs "zip mds dists"] r
  obtain n where n: "map snd rows = take n (zip mds dists)" by auto
  from map_snd_zip_prefix[of mds dists]
  obtain m where m: "map snd (zip mds dists) = take m dists" by auto
  have "map (\<lambda>(doc, md, distance). distance) rows = map snd (map snd rows)"
    by (simp add: case_prod_beta comp_def)
  also have "\<dots> = take n (take m dists)"
    by (simp only: n take_map[symmetric] m)
  finally show ?thesis using s by simp
qed

lemma matches_descending:
  assumes "sorted (map (\<lambda>(doc, md, distance). distance) rows)"
  shows "sorted_wrt (\<lambda>a b. similarity_score b \<le> similarity_score a) (map to_match rows)"
proof -
  from assms have "sorted_wrt (\<lambda>x y. (case x of (doc, md, distance) \<Rightarrow> distance) \<le> (case y of (doc, md, distance) \<Rightarrow> distance)) rows"
    by (simp add: sorted_map)
  then have "sorted_wrt (\<lambda>x y. similarity_score (to_match y) \<le> similarity_score (to_match x)) rows"
    by (rule sorted_wrt_mono_rel[rotated]) (auto simp: to_match_def)
  then show ?thesis by (simp add: sorted_wrt_map)
qed

lemma retrieve_documents_Inr:
  assumes "retrieve_documents env cfg st query k = Inr docs"
  shows "\<exists>qe results rows.
            generate_embedding (embeddings_create env) query = Inr qe \<and>
            collection_query env st [qe] (case k of None \<Rightarrow> retrieval_k cfg | Some n \<Rightarrow> n) = Inr results \<and>
            first_rows results = Inr rows \<and>
            docs = filter (\<lambda>d. similarity_threshold cfg \<le> similarity_score d) (map to_match rows)"
  using assms
  by (auto simp: retrieve_documents_def Let_def collect_matches_filter split: sum.splits)

lemma filter_threshold_mono:
  fixes t1 t2 :: real
  assumes "t1 \<le> t2"
  shows "filter (\<lambda>d. t2 \<le> f d) xs = filter (\<lambda>d. t2 \<le> f d) (filter (\<lambda>d. t1 \<le> f d) xs)"
  using assms by (induction xs) auto

lemma retrieve_documents_cases:
  "(\<exists>e. \<forall>t. retrieve_documents env (cfg\<lparr>similarity_threshold := t\<rparr>) st query k = Inl e) \<or>
   (\<exists>rows. \<forall>t. retrieve_documents env (cfg\<lparr>similarity_threshold := t\<rparr>) st query k
        = Inr (filter (\<lambda>d. t \<le> similarity_score d) (map to_match rows)))"
proof (cases "generate_embedding (embeddings_create env) query")
  case (Inl e)
  then have "\<forall>t. retrieve_documents env (cfg\<lparr>similarity_threshold := t\<rparr>) st query k
      = Inl (FailedToRetrieveDocuments e)"
    by (simp add: retrieve_documents_def)
  then show ?thesis by blast
next
  case qe: (Inr qe)
  let ?k = "case k of None \<Rightarrow> retrieval_k cfg | Some n \<Rightarrow> n"
  have k: "(case k of None \<Rightarrow> retrieval_k (cfg\<lparr>similarity_threshold := t\<rparr>) | Some n \<Rightarrow> n) = ?k" for t
    by (cases k) simp_all
  show ?thesis
  proof (cases "collection_query env st [qe] ?k")
    case (Inl e)
    with qe have "\<forall>t. retrieve_documents env (cfg\<lparr>similarity_threshold := t\<rparr>) st query k
        = Inl (FailedToRetrieveDocuments e)"
      by (simp add: retrieve_documents_def k)
    then show ?thesis by blast
  next
    case res: (Inr results)
    show ?thesis
    proof (cases "first_rows results")
      case (Inl e)
      with qe res have "\<forall>t. retrieve_documents env (cfg\<lparr>similarity_threshold := t\<rparr>) st query k
          = Inl (FailedToRetrieveDocuments e)"
        by (simp add: retrieve_documents_def k)
      then show ?thesis by blast
    next
      case (Inr rows)
      with qe res have "\<forall>t. retrieve_documents env (cfg\<lparr>similarity_threshold := t\<rparr>) st query k
          = Inr (filter (\<lambda>d. t \<le> similarity_score d) (map to_match rows))"
        by (simp add: retrieve_documents_def k collect_matches_filter)
      then show ?thesis by blast
    qed
  qed
qed

lemma example_retrieval:
  "retrieve_documents example_env example_cfg [] (py ''q'') None = Inr [near_match, middle_match]"
  by (simp add: retrieve_documents_def generate_embedding_def generate_embeddings_def
      example_env_def example_results_def example_cfg_def first_rows_def collect_matches_def
      near_match_def middle_match_def)

text \<open>
  C1: when the index reports its results by ascending distance, the matches that
  \<open>retrieve_documents\<close> returns are in descending order of similarity score; the score of
  a match is 1 minus the distance the index reported for its row; and the result is the
  sequence of the rows of the index, in their order, without those below the threshold.
\<close>

theorem retrieve_documents_ordering:
  assumes "nearest_first env st" and "retrieve_documents env cfg st query k = Inr docs"
  shows "sorted_wrt (\<lambda>a b. similarity_score b \<le> similarity_score a) docs \<and>
         (\<exists>qe results rows.
            generate_embedding (embeddings_create env) query = Inr qe \<and>
            collection_query env st [qe] (case k of None \<Rightarrow> retrieval_k cfg | Some n \<Rightarrow> n)
              = Inr results \<and>
            first_rows results = Inr rows \<and>
            map similarity_score (map to_match rows)
              = map (\<lambda>(doc, md, distance). 1 - distance) rows \<and>
            docs = filter (\<lambda>d. similarity_threshold cfg \<le> similarity_score d)
                     (map to_match rows) \<and>
            subseq docs (map to_match rows))"
proof -
  from retrieve_documents_Inr[OF assms(2)] obtain qe results rows where
    g: "generate_embedding (embeddings_create env) query = Inr qe" and
    q: "collection_query env st [qe] (case k of None \<Rightarrow> retrieval_k cfg | Some n \<Rightarrow> n)
          = Inr results" and
    f: "first_rows results = Inr rows" and
    d: "docs = filter (\<lambda>d. similarity_threshold cfg \<le> similarity_score d) (map to_match rows)"
    by blast
  from assms(1) q have "\<forall>ds\<in>set (distances results). sorted ds"
    unfolding nearest_first_def by blast
  from matches_descending[OF first_rows_sorted[OF f this]]
  have "sorted_wrt (\<lambda>a b. similarity_score b \<le> similarity_score a) docs"
    unfolding d by (rule sorted_wrt_filter)
  moreover have "subseq docs (map to_match rows)"
    unfolding d by simp
  ultimately show ?thesis
    using g q f d similarity_of_row[of rows] by blast
qed

theorem retrieve_documents_ordering_witness:
  "nearest_first example_env [] \<and>
   retrieve_documents example_env example_cfg [] (py ''q'') None
     = Inr [near_match, middle_match] \<and>
   sorted_wrt (\<lambda>a b. similarity_score b \<le> similarity_score a) [near_match, middle_match] \<and>
   map similarity_score [near_match, middle_match] = [9/10, 1/2]"
proof -
  have n: "nearest_first example_env []"
    by (simp add: nearest_first_def example_env_def example_results_def)
  from retrieve_documents_ordering[OF n example_retrieval]
  have "sorted_wrt (\<lambda>a b. similarity_score b \<le> similarity_score a) [near_match, middle_match]"
    by (rule conjunct1)
  moreover have "map similarity_score [near_match, middle_match] = [9/10, 1/2]"
    by (simp add: near_match_def middle_match_def)
  ultimately show ?thesis
    using n example_retrieval by blast
qed

text \<open>
  C2: for the same query and the same index state, raising the threshold from \<open>t1\<close> to
  \<open>t2\<close> never adds a match: both calls fail with the same error or both succeed, and then
  the matches under \<open>t2\<close> are those of the matches under \<open>t1\<close> that reach \<open>t2\<close>, a subset
  and no longer a list.
\<close>

theorem retrieve_documents_threshold_monotone:
  assumes "similarity_threshold cfg \<le> t2"
  shows "case (retrieve_documents env cfg st query k,
               retrieve_documents env (cfg\<lparr>similarity_threshold := t2\<rparr>) st query k) of
           (Inr d1, Inr d2) \<Rightarrow>
              d2 = filter (\<lambda>d. t2 \<le> similarity_score d) d1 \<and>
              set d2 \<subseteq> set d1 \<and> length d2 \<le> length d1
         | (Inl e1, Inl e2) \<Rightarrow> e1 = e2
         | _ \<Rightarrow> False"
proof -
  have c: "cfg\<lparr>similarity_threshold := similarity_threshold cfg\<rparr> = cfg" by simp
  from retrieve_documents_cases[of env cfg st query k] show ?thesis
  proof
    assume "\<exists>e. \<forall>t. retrieve_documents env (cfg\<lparr>similarity_threshold := t\<rparr>) st query k = Inl e"
    then obtain e where
      e: "\<And>t. retrieve_documents env (cfg\<lparr>similarity_threshold := t\<rparr>) st query k = Inl e"
      by blast
    from e[of "similarity_threshold cfg"] e[of t2] show ?thesis
      by (simp add: c)
  next
    assume "\<exists>rows. \<forall>t. retrieve_documents env (cfg\<lparr>similarity_threshold := t\<rparr>) st query k
        = Inr (filter (\<lambda>d. t \<le> similarity_score d) (map to_match rows))"
    then obtain rows where
      r: "\<And>t. retrieve_documents env (cfg\<lparr>similarity_threshold := t\<rparr>) st query k
        = Inr (filter (\<lambda>d. t \<le> similarity_score d) (map to_match rows))"
      by blast
    let ?d1 = "filter (\<lambda>d. similarity_threshold cfg \<le> similarity_score d) (map to_match rows)"
    let ?d2 = "filter (\<lambda>d. t2 \<le> similarity_score d) (map to_match rows)"
    have f: "?d2 = filter (\<lambda>d. t2 \<le> similarity_score d) ?d1"
      using assms by (rule filter_threshold_mono)
    have "set ?d2 \<subseteq> set ?d1"
      by (subst f) (rule filter_is_subset)
    moreover have "length ?d2 \<le> length ?d1"
      by (subst f) (rule length_filter_le)
    ultimately show ?thesis
      using r[of "similarity_threshold cfg"] r[of t2] f
      by (simp only: c prod.case sum.case)
  qed
qed

theorem retrieve_documents_threshold_monotone_witness:
  "similarity_threshold example_cfg \<le> 7/10 \<and>
   retrieve_documents example_env example_cfg [] (py ''q'') None
     = Inr [near_match, middle_match] \<and>
   retrieve_documents example_env (example_cfg\<lparr>similarity_threshold := 7/10\<rparr>) [] (py ''q'') None
     = Inr [near_match] \<and>
   set [near_match] \<subseteq> set [near_match, middle_match]"
proof -
  have t: "similarity_threshold example_cfg \<le> 7/10"
    by (simp add: example_cfg_def)
  have r2: "retrieve_documents example_env (example_cfg\<lparr>similarity_threshold := 7/10\<rparr>) []
      (py ''q'') None = Inr [near_match]"
    by (simp add: retrieve_documents_def generate_embedding_def generate_embeddings_def
      example_env_def example_results_def example_cfg_def first_rows_def collect_matches_def
      near_match_def)
  note m = retrieve_documents_threshold_monotone[OF t, of example_env "[]" "py ''q''" None]
  from m[unfolded example_retrieval r2 prod.case sum.case]
  have "set [near_match] \<subseteq> set [near_match, middle_match]"
    by (rule conjunct1[OF conjunct2])
  with t example_retrieval r2 show ?thesis by blast
qed

section \<open>Ingestion\<close>

text \<open>
  C3: \<open>add_documents\<close> embeds the whole batch before it writes to the index. When the
  embedding call fails, \<open>add_documents\<close> raises and the index state is the one it was
  given; and whenever the state has changed, the embedding call had succeeded and the
  change is that of the one \<open>add\<close> call made with its vectors.
\<close>

theorem add_documents_embedding_failure:
  "(embeddings_create env chunks = Inl e \<longrightarrow>
      add_documents env st chunks metadata_list
        = (Inl (FailedToAddDocuments (FailedToGenerateEmbeddings e)), st)) \<and>
   (snd (add_documents env st chunks metadata_list) \<noteq> st \<longrightarrow>
      (\<exists>embeddings. embeddings_create env chunks = Inr embeddings \<and>
         snd (add_documents env st chunks metadata_list)
           = snd (collection_add env st chunks embeddings
                    (map (sanitize (py_str env)) metadata_list)
                    (map (uuid4 env) [0..<length chunks]))))"
  by (auto simp: add_documents_def generate_embeddings_def Let_def
      split: sum.splits prod.splits)

theorem add_documents_embedding_failure_witness:
  "embeddings_create failing_env [py ''new''] = Inl (External (py ''rate limit'')) \<and>
   add_documents failing_env [py ''old''] [py ''new''] [[]]
     = (Inl (FailedToAddDocuments (FailedToGenerateEmbeddings (External (py ''rate limit'')))),
        [py ''old'']) \<and>
   add_documents example_env [py ''old''] [py ''new''] [[]]
     = (Inr [[48]], [py ''old'', py ''new''])"
proof -
  have f: "embeddings_create failing_env [py ''new''] = Inl (External (py ''rate limit''))"
    by (simp add: failing_env_def example_env_def)
  from add_documents_embedding_failure[of failing_env "[py ''new'']"
      "External (py ''rate limit'')" "[py ''old'']" "[[]]"] f
  have "add_documents failing_env [py ''old''] [py ''new''] [[]]
     = (Inl (FailedToAddDocuments (FailedToGenerateEmbeddings (External (py ''rate limit'')))),
        [py ''old''])"
    by blast
  moreover have "add_documents example_env [py ''old''] [py ''new''] [[]]
     = (Inr [[48]], [py ''old'', py ''new''])"
    by (simp add: add_documents_def example_env_def generate_embeddings_def)
  ultimately show ?thesis using f by blast
qed

end
